theory Spec2Isabelle
  imports Complex_Main
begin

section \<open>The debounced Program Change router of sfz-router.py\<close>

text \<open>
  The script listens for MIDI Program Change messages on one control channel, waits until
  the selector has rested for \<open>DEBOUNCE_SECONDS\<close>, and then writes a
  \<open>load_instrument\<close> command to the standard input of the sampler process. The
  last program is remembered in a text file.

  Python integers are unbounded and are modelled as \<open>int\<close>. The readings of
  \<open>time.monotonic()\<close> are modelled as exact rationals: the rounding of the
  floating-point subtraction \<open>now - last_request_time\<close> is not part of the model.
  Calls of \<open>log\<close> (printing) and the \<open>time.sleep\<close> at the end of each
  loop iteration change no variable of the loop and are left out.
\<close>

unbundle bit_operations_syntax

subsection \<open>Configuration\<close>

definition COMMON_CHANNEL :: int where
  "COMMON_CHANNEL = 1"

definition SFZ_MAP :: "int \<rightharpoonup> string" where
  "SFZ_MAP = map_of
     [(10, ''/root/sfz/Wurlitzer/Wurlitzer.sfz''),
      (11, ''/root/sfz/Clavinet/Clavinet.sfz''),
      (12, ''/root/sfz/K18-Upright-Piano/K18-Upright-Piano.sfz''),
      (13, ''/root/sfz/SalamanderGrandPianoV6/sfz_daw/Accurate-SalamanderGrandPiano_flat.Recommended.sfz''),
      (14, ''/root/sfz/GregSullivan.E-Pianos-master/PianetT/PianetT.sfz''),
      (15, ''/root/sfz/GregSullivan.E-Pianos-master/EP200/EP200.sfz''),
      (16, ''/root/sfz/jRhodes3d/jlearman.jRhodes3d-master/jRhodes3d-st/_jRhodes3d-st-flac.sfz'')]"

definition DEBOUNCE_SECONDS :: rat where
  "DEBOUNCE_SECONDS = 1 / 2"

subsection \<open>Errors\<close>

datatype error = IndexError | KeyError | ValueError | OSError

subsection \<open>The text of the last-program file\<close>

text \<open>
  \<open>LAST_PROG_FILE\<close> is either missing, present but failing to open or read, or
  present with some text. The text is a string of ASCII characters.
\<close>

datatype file_state = Missing | Unreadable | Text string

text \<open>
  \<open>str.strip()\<close> without argument removes white space at both ends; on ASCII text
  these are the characters 9 to 13, 28 to 31 and 32.
\<close>

definition is_space :: "char \<Rightarrow> bool" where
  "is_space c = (let n = (of_char c :: nat) in (9 \<le> n \<and> n \<le> 13) \<or> (28 \<le> n \<and> n \<le> 32))"

definition strip :: "string \<Rightarrow> string" where
  "strip s = rev (dropWhile is_space (rev (dropWhile is_space s)))"

text \<open>
  \<open>int(s)\<close> on a stripped ASCII string in base ten: an optional sign, then decimal
  digits, where single underscores may stand between two digits. Anything else raises
  \<open>ValueError\<close>, here \<open>None\<close>. The interpreter's configurable limit on the
  number of digits is not modelled.
\<close>

definition digit_value :: "char \<Rightarrow> nat option" where
  "digit_value c = (let n = (of_char c :: nat) in if 48 \<le> n \<and> n \<le> 57 then Some (n - 48) else None)"

fun py_digits :: "string \<Rightarrow> nat \<Rightarrow> nat option" where
  "py_digits [] acc = Some acc"
| "py_digits (c # cs) acc =
     (if c = CHR ''_'' then
        (case cs of
           [] \<Rightarrow> None
         | d # ds \<Rightarrow> (case digit_value d of None \<Rightarrow> None | Some v \<Rightarrow> py_digits ds (10 * acc + v)))
      else (case digit_value c of None \<Rightarrow> None | Some v \<Rightarrow> py_digits cs (10 * acc + v)))"

definition py_nat :: "string \<Rightarrow> nat option" where
  "py_nat s =
     (case s of
        [] \<Rightarrow> None
      | c # cs \<Rightarrow> (case digit_value c of None \<Rightarrow> None | Some v \<Rightarrow> py_digits cs v))"

definition py_int :: "string \<Rightarrow> int option" where
  "py_int s =
     (case s of
        [] \<Rightarrow> None
      | c # cs \<Rightarrow>
          if c = CHR ''-'' then map_option (\<lambda>n. - int n) (py_nat cs)
          else if c = CHR ''+'' then map_option int (py_nat cs)
          else map_option int (py_nat s))"

text \<open>\<open>str(n)\<close>: the decimal text of an integer.\<close>

fun digits_of :: "nat \<Rightarrow> string" where
  "digits_of n =
     (if n < 10 then [''0123456789'' ! n]
      else digits_of (n div 10) @ [''0123456789'' ! (n mod 10)])"

definition py_str :: "int \<Rightarrow> string" where
  "py_str n = (if n < 0 then CHR ''-'' # digits_of (nat (- n)) else digits_of (nat n))"

subsection \<open>load\_last\_program and save\_last\_program\<close>

definition path_exists :: "file_state \<Rightarrow> bool" where
  "path_exists f = (f \<noteq> Missing)"

text \<open>The body of the \<open>with\<close> statement: \<open>int(f.read().strip())\<close>.\<close>

definition read_int :: "file_state \<Rightarrow> error + int" where
  "read_int f =
     (case f of
        Missing \<Rightarrow> Inl OSError
      | Unreadable \<Rightarrow> Inl OSError
      | Text s \<Rightarrow> (case py_int (strip s) of None \<Rightarrow> Inl ValueError | Some v \<Rightarrow> Inr v))"

definition load_last_program :: "file_state \<Rightarrow> int" where
  "load_last_program f =
     (let default_prog = 10 in
      if \<not> path_exists f then default_prog
      else (case read_int f of
              Inr val \<Rightarrow> if SFZ_MAP val \<noteq> None then val else default_prog
            | Inl e \<Rightarrow> default_prog))"

text \<open>
  Writing can fail in two ways: \<open>open(..., "w")\<close> raises and the file is as before,
  or the file has been truncated by \<open>open\<close> and only the first \<open>k\<close> characters
  reach it before the write raises. Both exceptions are caught inside
  \<open>save_last_program\<close>, which returns nothing in every case.
\<close>

datatype save_outcome = Written | Not_opened | Cut_short nat

definition save_last_program :: "save_outcome \<Rightarrow> int \<Rightarrow> file_state \<Rightarrow> file_state" where
  "save_last_program r program f =
     (case r of
        Written \<Rightarrow> Text (py_str program)
      | Not_opened \<Rightarrow> f
      | Cut_short k \<Rightarrow> Text (take k (py_str program)))"

subsection \<open>The state of the run loop\<close>

text \<open>
  The three local variables of \<open>main\<close> that the loop updates, the file on disk,
  and the commands that have been written and flushed to the standard input of sfizz.
\<close>

record router_state =
  current_program :: int
  last_requested_program :: int
  last_request_time :: rat
  last_prog_file :: file_state
  sfizz_stdin :: "string list"

text \<open>
  What one iteration of the loop reads from outside: the result of
  \<open>midiin.get_message()\<close> (nothing, or the data bytes with a delta time), the clock
  reading taken when a Program Change is accepted, the clock reading \<open>now\<close> of the
  debounce check, and whether saving and sending work in this iteration.
\<close>

record tick_env =
  msg :: "(int list \<times> rat) option"
  t_event :: rat
  t_now :: rat
  save_result :: save_outcome
  send_ok :: bool

text \<open>The calls the loop makes to the outside, in order.\<close>

datatype call = Save int | Send string

subsection \<open>One iteration of the loop\<close>

text \<open>Python's \<open>data[i]\<close> for a non-negative literal index.\<close>

definition item :: "'a list \<Rightarrow> nat \<Rightarrow> error + 'a" where
  "item xs i = (if i < length xs then Inr (xs ! i) else Inl IndexError)"

text \<open>
  Lines 261 to 275: a tuple \<open>(data, delta)\<close> is always true in \<open>if msg\<close>; the
  status byte is \<open>data[0]\<close>, and only for a Program Change on the common channel is
  \<open>data[1]\<close> read.
\<close>

definition handle_message :: "router_state \<Rightarrow> (int list \<times> rat) option \<Rightarrow> rat \<Rightarrow> error + router_state" where
  "handle_message s m t =
     (let common_midi_channel = COMMON_CHANNEL - 1 in
      case m of
        None \<Rightarrow> Inr s
      | Some (data, delta) \<Rightarrow>
          (case item data 0 of
             Inl e \<Rightarrow> Inl e
           | Inr status \<Rightarrow>
               let status_type = status AND 0xF0; channel = status AND 0x0F in
               if status_type = 0xC0 \<and> channel = common_midi_channel then
                 (case item data 1 of
                    Inl e \<Rightarrow> Inl e
                  | Inr program \<Rightarrow>
                      Inr (s\<lparr>last_requested_program := program, last_request_time := t\<rparr>))
               else Inr s))"

definition load_cmd :: "string \<Rightarrow> string" where
  "load_cmd sfz_path = ''load_instrument '' @ sfz_path @ [CHR 0x0A]"

text \<open>
  Lines 279 to 297: the debounce check and the commit. The file is saved before the
  command is written; \<open>current_program\<close> is assigned only after write and flush
  have returned.
\<close>

definition debounce_check :: "router_state \<Rightarrow> tick_env \<Rightarrow> error + (router_state \<times> call list)" where
  "debounce_check s e =
     (let now = t_now e in
      if SFZ_MAP (last_requested_program s) \<noteq> None
         \<and> last_requested_program s \<noteq> current_program s
         \<and> now - last_request_time s \<ge> DEBOUNCE_SECONDS
      then
        (let program = last_requested_program s in
         case SFZ_MAP program of
           None \<Rightarrow> Inl KeyError
         | Some sfz_path \<Rightarrow>
             let s1 = s\<lparr>last_prog_file := save_last_program (save_result e) program (last_prog_file s)\<rparr>;
                 cmd = load_cmd sfz_path
             in if send_ok e
                then Inr (s1\<lparr>sfizz_stdin := sfizz_stdin s1 @ [cmd], current_program := program\<rparr>,
                          [Save program, Send cmd])
                else Inr (s1, [Save program, Send cmd]))
      else Inr (s, []))"

definition tick :: "router_state \<Rightarrow> tick_env \<Rightarrow> error + (router_state \<times> call list)" where
  "tick s e =
     (case handle_message s (msg e) (t_event e) of
        Inl err \<Rightarrow> Inl err
      | Inr s1 \<Rightarrow> debounce_check s1 e)"

text \<open>
  The loop \<open>while True\<close> has no exit of its own: it runs until an exception leaves
  it. A run is the loop over a finite list of iterations; it gives the calls made so
  far and either the state reached or the exception that ended the loop. A
  \<open>KeyboardInterrupt\<close> from outside ends the loop as well; it is the end of the
  list, taken between two iterations.
\<close>

fun run :: "router_state \<Rightarrow> tick_env list \<Rightarrow> call list \<times> (error + router_state)" where
  "run s [] = ([], Inr s)"
| "run s (e # es) =
     (case tick s e of
        Inl err \<Rightarrow> ([], Inl err)
      | Inr (s1, cs) \<Rightarrow> (case run s1 es of (cs', r) \<Rightarrow> (cs @ cs', r)))"

text \<open>The state in which \<open>main\<close> enters the loop (lines 237 and 255 to 257).\<close>

definition initial_state :: "file_state \<Rightarrow> rat \<Rightarrow> router_state" where
  "initial_state f t0 =
     (let default_prog = load_last_program f in
      \<lparr>current_program = default_prog, last_requested_program = default_prog,
       last_request_time = t0, last_prog_file = f, sfizz_stdin = []\<rparr>)"

subsection \<open>Notions for stating the properties of the loop\<close>

text \<open>
  The Program Change that an iteration accepts, with the clock reading it is stamped
  with: a message of at least two data bytes whose status byte is a Program Change on
  the common channel.
\<close>

definition pc_of :: "tick_env \<Rightarrow> (rat \<times> int) option" where
  "pc_of e =
     (case msg e of
        None \<Rightarrow> None
      | Some (data, delta) \<Rightarrow>
          (case data of
             status # program # rest \<Rightarrow>
               if status AND 0xF0 = 0xC0 \<and> status AND 0x0F = COMMON_CHANNEL - 1
               then Some (t_event e, program) else None
           | _ \<Rightarrow> None))"

text \<open>The accepted Program Changes of a run, in order.\<close>

definition program_changes :: "tick_env list \<Rightarrow> (rat \<times> int) list" where
  "program_changes es = List.map_filter pc_of es"

text \<open>
  An iteration is quiet when it receives no message, or a message that is not a Program
  Change on the common channel.
\<close>

definition quiet :: "tick_env \<Rightarrow> bool" where
  "quiet e =
     (case msg e of
        None \<Rightarrow> True
      | Some (data, delta) \<Rightarrow>
          (case data of
             [] \<Rightarrow> False
           | status # rest \<Rightarrow> \<not> (status AND 0xF0 = 0xC0 \<and> status AND 0x0F = COMMON_CHANNEL - 1)))"

text \<open>Successive times that are less than the debounce window apart.\<close>

fun close_together :: "rat list \<Rightarrow> bool" where
  "close_together (t # u # ts) = (u - t < DEBOUNCE_SECONDS \<and> close_together (u # ts))"
| "close_together ts = True"

text \<open>
  The readings of the monotonic clock in a run, in the order the loop takes them: the
  stamp of an accepted Program Change (line 275), then \<open>now\<close> (line 279).
\<close>

definition clock_readings :: "tick_env list \<Rightarrow> rat list" where
  "clock_readings es =
     concat (map (\<lambda>e. if pc_of e = None then [t_now e] else [t_event e, t_now e]) es)"

text \<open>The calls of one commit of a program: save it, then write its load command.\<close>

definition commit_calls :: "int \<Rightarrow> call list" where
  "commit_calls p = (case SFZ_MAP p of None \<Rightarrow> [] | Some sfz_path \<Rightarrow> [Save p, Send (load_cmd sfz_path)])"

section \<open>Basic facts\<close>

lemma dom_SFZ_MAP: "dom SFZ_MAP = {10, 11, 12, 13, 14, 15, 16}"
  by (auto simp: SFZ_MAP_def split: if_splits)

lemma handle_message_pc:
  assumes "pc_of e = Some (t, p)"
  shows "handle_message s (msg e) (t_event e) = Inr (s\<lparr>last_requested_program := p, last_request_time := t\<rparr>)"
  using assms
  by (auto simp: pc_of_def handle_message_def item_def split: option.splits list.splits if_splits)

lemma handle_message_no_pc:
  assumes "pc_of e = None" "handle_message s (msg e) (t_event e) = Inr s1"
  shows "s1 = s"
  using assms
  by (auto simp: pc_of_def handle_message_def item_def Let_def split: option.splits list.splits if_splits)

lemma handle_message_quiet:
  assumes "quiet e"
  shows "handle_message s (msg e) t = Inr s"
  using assms
  by (auto simp: quiet_def handle_message_def item_def Let_def split: option.splits list.splits if_splits)

lemma quiet_no_pc: "quiet e \<Longrightarrow> pc_of e = None"
  by (auto simp: quiet_def pc_of_def split: option.splits list.splits if_splits)

lemma handle_message_current:
  "handle_message s m t = Inr s1 \<Longrightarrow> current_program s1 = current_program s"
  by (auto simp: handle_message_def item_def Let_def split: option.splits list.splits if_splits sum.splits)

lemma handle_message_world:
  "handle_message s m t = Inr s1 \<Longrightarrow> last_prog_file s1 = last_prog_file s \<and> sfizz_stdin s1 = sfizz_stdin s"
  by (auto simp: handle_message_def item_def Let_def split: option.splits list.splits if_splits sum.splits)

text \<open>The two outcomes of the debounce check.\<close>

lemma debounce_check_due:
  assumes "SFZ_MAP (last_requested_program s) = Some path"
    and "last_requested_program s \<noteq> current_program s"
    and "DEBOUNCE_SECONDS \<le> t_now e - last_request_time s"
  shows "debounce_check s e =
     Inr (if send_ok e
          then s\<lparr>last_prog_file := save_last_program (save_result e) (last_requested_program s) (last_prog_file s),
                 sfizz_stdin := sfizz_stdin s @ [load_cmd path],
                 current_program := last_requested_program s\<rparr>
          else s\<lparr>last_prog_file := save_last_program (save_result e) (last_requested_program s) (last_prog_file s)\<rparr>,
          [Save (last_requested_program s), Send (load_cmd path)])"
  using assms by (simp add: debounce_check_def Let_def)

lemma debounce_check_not_due:
  assumes "SFZ_MAP (last_requested_program s) = None
     \<or> last_requested_program s = current_program s
     \<or> t_now e - last_request_time s < DEBOUNCE_SECONDS"
  shows "debounce_check s e = Inr (s, [])"
  using assms by (auto simp: debounce_check_def Let_def)

lemma debounce_check_cases:
  obtains (idle) "debounce_check s e = Inr (s, [])"
  | (commit) s' path where "debounce_check s e = Inr (s', [Save (last_requested_program s), Send (load_cmd path)])"
      "SFZ_MAP (last_requested_program s) = Some path"
      "last_requested_program s' = last_requested_program s"
      "last_request_time s' = last_request_time s"
      "DEBOUNCE_SECONDS \<le> t_now e - last_request_time s"
      "last_requested_program s \<noteq> current_program s"
proof (cases "SFZ_MAP (last_requested_program s) \<noteq> None
         \<and> last_requested_program s \<noteq> current_program s
         \<and> t_now e - last_request_time s \<ge> DEBOUNCE_SECONDS")
  case True
  then obtain path where p: "SFZ_MAP (last_requested_program s) = Some path" by auto
  define s' where "s' = (if send_ok e
          then s\<lparr>last_prog_file := save_last_program (save_result e) (last_requested_program s) (last_prog_file s),
                 sfizz_stdin := sfizz_stdin s @ [load_cmd path],
                 current_program := last_requested_program s\<rparr>
          else s\<lparr>last_prog_file := save_last_program (save_result e) (last_requested_program s) (last_prog_file s)\<rparr>)"
  have "debounce_check s e = Inr (s', [Save (last_requested_program s), Send (load_cmd path)])"
    using debounce_check_due[OF p, of e] True by (simp add: s'_def)
  moreover have "last_requested_program s' = last_requested_program s"
    "last_request_time s' = last_request_time s"
    by (simp_all add: s'_def)
  ultimately show ?thesis
    using p True by (intro commit[of s' path]) simp_all
next
  case False
  then have "debounce_check s e = Inr (s, [])"
    by (intro debounce_check_not_due) auto
  then show ?thesis by (rule idle)
qed

text \<open>Unfolding the definitions on concrete inputs.\<close>

lemmas loop_eval =
  tick_def handle_message_def item_def COMMON_CHANNEL_def debounce_check_def
  DEBOUNCE_SECONDS_def save_last_program_def py_str_def initial_state_def Let_def

lemmas file_eval =
  load_last_program_def path_exists_def read_int_def py_int_def strip_def
  is_space_def py_nat_def digit_value_def Let_def

section \<open>The claims\<close>

subsection \<open>The commit condition\<close>

text \<open>
  C1. In every loop iteration whose message handling completes, the commit (look up the
  SFZ path, save the program, write the load command) is made exactly when the pending
  program is a key of \<open>SFZ_MAP\<close>, differs from \<open>current_program\<close>, and
  at least \<open>DEBOUNCE_SECONDS\<close> have passed since the last accepted Program
  Change. When one of the three fails, no call is made and the state, with
  \<open>current_program\<close>, is as the message handling left it.
\<close>

theorem commit_exactly_when_due:
  assumes "handle_message s (msg e) (t_event e) = Inr s1"
  shows "\<exists>s' cs. tick s e = Inr (s', cs) \<and>
     (if last_requested_program s1 \<in> dom SFZ_MAP
         \<and> last_requested_program s1 \<noteq> current_program s1
         \<and> DEBOUNCE_SECONDS \<le> t_now e - last_request_time s1
      then \<exists>sfz_path. SFZ_MAP (last_requested_program s1) = Some sfz_path
             \<and> cs = [Save (last_requested_program s1), Send (load_cmd sfz_path)]
             \<and> last_prog_file s' =
                 save_last_program (save_result e) (last_requested_program s1) (last_prog_file s)
      else cs = [] \<and> s' = s1 \<and> current_program s' = current_program s
             \<and> sfizz_stdin s' = sfizz_stdin s)"
proof -
  have t: "tick s e = debounce_check s1 e"
    using assms by (simp add: tick_def)
  have w: "last_prog_file s1 = last_prog_file s" "sfizz_stdin s1 = sfizz_stdin s"
    "current_program s1 = current_program s"
    using assms handle_message_world handle_message_current by auto
  show ?thesis
  proof (cases "last_requested_program s1 \<in> dom SFZ_MAP
         \<and> last_requested_program s1 \<noteq> current_program s1
         \<and> DEBOUNCE_SECONDS \<le> t_now e - last_request_time s1")
    case True
    then obtain sfz_path where p: "SFZ_MAP (last_requested_program s1) = Some sfz_path"
      by auto
    show ?thesis
      using True p w t debounce_check_due[OF p, of e] by auto
  next
    case False
    then have "debounce_check s1 e = Inr (s1, [])"
      by (intro debounce_check_not_due) (auto simp: domIff)
    then show ?thesis
      using False w t by auto
  qed
qed

theorem commit_exactly_when_due_witness:
  "handle_message
     \<lparr>current_program = 10, last_requested_program = 11, last_request_time = 0,
      last_prog_file = Missing, sfizz_stdin = []\<rparr>
     (msg \<lparr>msg = None, t_event = 0, t_now = 1, save_result = Written, send_ok = True\<rparr>)
     (t_event \<lparr>msg = None, t_event = 0, t_now = 1, save_result = Written, send_ok = True\<rparr>)
   = Inr \<lparr>current_program = 10, last_requested_program = 11, last_request_time = 0,
      last_prog_file = Missing, sfizz_stdin = []\<rparr>
   \<and> (\<exists>s'. tick
     \<lparr>current_program = 10, last_requested_program = 11, last_request_time = 0,
      last_prog_file = Missing, sfizz_stdin = []\<rparr>
     \<lparr>msg = None, t_event = 0, t_now = 1, save_result = Written, send_ok = True\<rparr>
     = Inr (s', [Save 11, Send (load_cmd ''/root/sfz/Clavinet/Clavinet.sfz'')])
       \<and> last_prog_file s' = Text ''11'')"
proof -
  let ?s = "\<lparr>current_program = 10, last_requested_program = 11, last_request_time = 0,
      last_prog_file = Missing, sfizz_stdin = []\<rparr>"
  let ?e = "\<lparr>msg = None, t_event = 0, t_now = 1, save_result = Written, send_ok = True\<rparr>"
  have h: "handle_message ?s (msg ?e) (t_event ?e) = Inr ?s"
    by (simp add: handle_message_def)
  have m: "SFZ_MAP 11 = Some ''/root/sfz/Clavinet/Clavinet.sfz''"
    by (simp add: SFZ_MAP_def)
  show ?thesis
    using h commit_exactly_when_due[OF h] m
    by (auto simp: DEBOUNCE_SECONDS_def save_last_program_def py_str_def domIff)
qed

subsection \<open>Coalescing of rapid Program Changes\<close>

lemma program_changes_Nil: "program_changes [] = []"
  by (simp add: program_changes_def map_filter_simps)

lemma program_changes_Cons:
  "program_changes (e # es) =
     (case pc_of e of None \<Rightarrow> program_changes es | Some x \<Rightarrow> x # program_changes es)"
  by (simp add: program_changes_def map_filter_simps split: option.splits)

lemma stamp_in_readings:
  "(t, p) \<in> set (program_changes es) \<Longrightarrow> t \<in> set (clock_readings es)"
proof (induction es)
  case Nil
  then show ?case by (simp add: program_changes_Nil)
next
  case (Cons e es)
  show ?case
  proof (cases "pc_of e")
    case None
    with Cons show ?thesis
      by (auto simp: program_changes_Cons clock_readings_def)
  next
    case (Some x)
    have "fst x = t_event e"
      using Some by (auto simp: pc_of_def split: option.splits list.splits if_splits)
    with Some Cons show ?thesis
      by (auto simp: program_changes_Cons clock_readings_def)
  qed
qed

lemma clock_readings_Cons:
  "clock_readings (e # es) = (if pc_of e = None then [t_now e] else [t_event e, t_now e]) @ clock_readings es"
  by (simp add: clock_readings_def)

lemma sorted_readings_tail:
  "sorted (clock_readings (e # es)) \<Longrightarrow> sorted (clock_readings es)"
  by (simp add: clock_readings_Cons sorted_append split: if_splits)

lemma now_le_later_reading:
  "sorted (clock_readings (e # es)) \<Longrightarrow> r \<in> set (clock_readings es) \<Longrightarrow> t_now e \<le> r"
  by (auto simp: clock_readings_Cons sorted_append split: if_splits)

lemma no_commit_before_next_change:
  assumes "sorted (clock_readings (e # es))"
    and "close_together (t # map fst (program_changes es))"
    and "DEBOUNCE_SECONDS \<le> t_now e - t"
  shows "program_changes es = []"
proof (rule ccontr)
  assume "program_changes es \<noteq> []"
  then obtain t' q rest where r: "program_changes es = (t', q) # rest"
    by (cases "program_changes es") auto
  then have "(t', q) \<in> set (program_changes es)" by simp
  then have "t_now e \<le> t'"
    using stamp_in_readings now_le_later_reading[OF assms(1)] by blast
  moreover have "t' - t < DEBOUNCE_SECONDS"
    using assms(2) r by simp
  ultimately show False using assms(3) by simp
qed

lemma coalesce_general:
  assumes "sorted (clock_readings es)"
    and "close_together (last_request_time s # map fst (program_changes es))"
  shows "\<exists>n. fst (run s es)
    = concat (replicate n (commit_calls (last (last_requested_program s # map snd (program_changes es)))))"
  using assms
proof (induction es arbitrary: s)
  case Nil
  have "fst (run s []) = concat (replicate 0 (commit_calls (last (last_requested_program s # map snd (program_changes [])))))"
    by simp
  then show ?case by blast
next
  case (Cons e es)
  let ?final = "last (last_requested_program s # map snd (program_changes (e # es)))"
  show ?case
  proof (cases "handle_message s (msg e) (t_event e)")
    case (Inl err)
    then have "fst (run s (e # es)) = concat (replicate 0 (commit_calls ?final))"
      by (simp add: tick_def)
    then show ?thesis by blast
  next
    case (Inr s1)
    have A: "close_together (last_request_time s1 # map fst (program_changes es))"
      and B: "last (last_requested_program s1 # map snd (program_changes es)) = ?final"
    proof -
      show "close_together (last_request_time s1 # map fst (program_changes es))"
      proof (cases "pc_of e")
        case None
        with handle_message_no_pc[OF None Inr] Cons.prems(2) show ?thesis
          by (simp add: program_changes_Cons)
      next
        case (Some x)
        obtain t q where x: "x = (t, q)" by (cases x)
        have "s1 = s\<lparr>last_requested_program := q, last_request_time := t\<rparr>"
          using handle_message_pc[of e t q s] Some x Inr by simp
        with Cons.prems(2) Some x show ?thesis
          by (simp add: program_changes_Cons)
      qed
      show "last (last_requested_program s1 # map snd (program_changes es)) = ?final"
      proof (cases "pc_of e")
        case None
        with handle_message_no_pc[OF None Inr] show ?thesis
          by (simp add: program_changes_Cons)
      next
        case (Some x)
        obtain t q where x: "x = (t, q)" by (cases x)
        have "s1 = s\<lparr>last_requested_program := q, last_request_time := t\<rparr>"
          using handle_message_pc[of e t q s] Some x Inr by simp
        with Some x show ?thesis
          by (simp add: program_changes_Cons)
      qed
    qed
    have S: "sorted (clock_readings es)"
      using Cons.prems(1) by (rule sorted_readings_tail)
    show ?thesis
    proof (rule debounce_check_cases[of s1 e])
      assume "debounce_check s1 e = Inr (s1, [])"
      then have "tick s e = Inr (s1, [])" using Inr by (simp add: tick_def)
      then have "fst (run s (e # es)) = fst (run s1 es)" by (simp split: prod.splits)
      with Cons.IH[OF S A] B show ?thesis by simp
    next
      fix s2 sfz_path
      assume c: "debounce_check s1 e = Inr (s2, [Save (last_requested_program s1), Send (load_cmd sfz_path)])"
        "SFZ_MAP (last_requested_program s1) = Some sfz_path"
        "last_requested_program s2 = last_requested_program s1"
        "last_request_time s2 = last_request_time s1"
        "DEBOUNCE_SECONDS \<le> t_now e - last_request_time s1"
        "last_requested_program s1 \<noteq> current_program s1"
      have none: "program_changes es = []"
        using no_commit_before_next_change[OF Cons.prems(1) A c(5)] .
      then have fin: "?final = last_requested_program s1" using B by simp
      have cc: "commit_calls (last_requested_program s1) = [Save (last_requested_program s1), Send (load_cmd sfz_path)]"
        using c(2) by (simp add: commit_calls_def)
      have "tick s e = Inr (s2, commit_calls (last_requested_program s1))"
        using Inr c(1) cc by (simp add: tick_def)
      then have f: "fst (run s (e # es)) = commit_calls (last_requested_program s1) @ fst (run s2 es)"
        by (simp split: prod.splits)
      from Cons.IH[of s2] S A c(3,4) none
      obtain n where "fst (run s2 es) = concat (replicate n (commit_calls (last_requested_program s1)))"
        by auto
      with f fin have "fst (run s (e # es)) = concat (replicate (Suc n) (commit_calls ?final))"
        by simp
      then show ?thesis by blast
    qed
  qed
qed

text \<open>
  C2. Take a run that begins with an accepted Program Change and in which the stamps of
  successive accepted Program Changes are less than \<open>DEBOUNCE_SECONDS\<close> apart,
  the clock readings being in order. Whatever the state before it, every call of the
  run belongs to a commit of the program of the last Program Change: no program that
  came before it is saved or sent. The stamp of a Program Change is the clock reading
  taken when the loop accepts it.
\<close>

theorem rapid_changes_coalesce:
  assumes "sorted (clock_readings (e # es))"
    and "pc_of e = Some (t1, p1)"
    and "close_together (map fst (program_changes (e # es)))"
  shows "\<exists>n. fst (run s (e # es))
    = concat (replicate n (commit_calls (snd (last (program_changes (e # es))))))"
proof -
  let ?s0 = "s\<lparr>last_request_time := t1\<rparr>"
  have "handle_message ?s0 (msg e) (t_event e) = handle_message s (msg e) (t_event e)"
    using handle_message_pc[OF assms(2)] by simp
  then have "tick ?s0 e = tick s e" by (simp add: tick_def)
  then have r: "run ?s0 (e # es) = run s (e # es)" by simp
  have pcs: "program_changes (e # es) = (t1, p1) # program_changes es"
    using assms(2) by (simp add: program_changes_Cons)
  have "close_together (last_request_time ?s0 # map fst (program_changes (e # es)))"
    using assms(3) pcs by (simp add: DEBOUNCE_SECONDS_def)
  from coalesce_general[OF assms(1) this] r
  obtain n where "fst (run s (e # es))
    = concat (replicate n (commit_calls (last (last_requested_program ?s0 # map snd (program_changes (e # es))))))"
    by auto
  moreover have "last (last_requested_program ?s0 # map snd (program_changes (e # es)))
      = snd (last (program_changes (e # es)))"
    using pcs by (simp add: last_map)
  ultimately show ?thesis by auto
qed

theorem rapid_changes_coalesce_witness:
  "sorted (clock_readings
     (\<lparr>msg = Some ([0xC0, 11], 0), t_event = 1 / 10, t_now = 1 / 10, save_result = Written, send_ok = True\<rparr>
      # [\<lparr>msg = Some ([0xC0, 10], 0), t_event = 3 / 10, t_now = 3 / 10, save_result = Written, send_ok = True\<rparr>,
       \<lparr>msg = Some ([0xC0, 11], 0), t_event = 7 / 20, t_now = 7 / 20, save_result = Written, send_ok = True\<rparr>,
       \<lparr>msg = None, t_event = 0, t_now = 21 / 25, save_result = Written, send_ok = True\<rparr>,
       \<lparr>msg = None, t_event = 0, t_now = 17 / 20, save_result = Written, send_ok = True\<rparr>,
       \<lparr>msg = None, t_event = 0, t_now = 9 / 10, save_result = Written, send_ok = True\<rparr>]))
   \<and> close_together (map fst (program_changes
     (\<lparr>msg = Some ([0xC0, 11], 0), t_event = 1 / 10, t_now = 1 / 10, save_result = Written, send_ok = True\<rparr>
      # [\<lparr>msg = Some ([0xC0, 10], 0), t_event = 3 / 10, t_now = 3 / 10, save_result = Written, send_ok = True\<rparr>,
       \<lparr>msg = Some ([0xC0, 11], 0), t_event = 7 / 20, t_now = 7 / 20, save_result = Written, send_ok = True\<rparr>,
       \<lparr>msg = None, t_event = 0, t_now = 21 / 25, save_result = Written, send_ok = True\<rparr>,
       \<lparr>msg = None, t_event = 0, t_now = 17 / 20, save_result = Written, send_ok = True\<rparr>,
       \<lparr>msg = None, t_event = 0, t_now = 9 / 10, save_result = Written, send_ok = True\<rparr>])))
   \<and> fst (run (initial_state Missing 0)
     (\<lparr>msg = Some ([0xC0, 11], 0), t_event = 1 / 10, t_now = 1 / 10, save_result = Written, send_ok = True\<rparr>
      # [\<lparr>msg = Some ([0xC0, 10], 0), t_event = 3 / 10, t_now = 3 / 10, save_result = Written, send_ok = True\<rparr>,
       \<lparr>msg = Some ([0xC0, 11], 0), t_event = 7 / 20, t_now = 7 / 20, save_result = Written, send_ok = True\<rparr>,
       \<lparr>msg = None, t_event = 0, t_now = 21 / 25, save_result = Written, send_ok = True\<rparr>,
       \<lparr>msg = None, t_event = 0, t_now = 17 / 20, save_result = Written, send_ok = True\<rparr>,
       \<lparr>msg = None, t_event = 0, t_now = 9 / 10, save_result = Written, send_ok = True\<rparr>]))
     = [Save 11, Send (load_cmd ''/root/sfz/Clavinet/Clavinet.sfz'')]
   \<and> snd (last (program_changes
     (\<lparr>msg = Some ([0xC0, 11], 0), t_event = 1 / 10, t_now = 1 / 10, save_result = Written, send_ok = True\<rparr>
      # [\<lparr>msg = Some ([0xC0, 10], 0), t_event = 3 / 10, t_now = 3 / 10, save_result = Written, send_ok = True\<rparr>,
       \<lparr>msg = Some ([0xC0, 11], 0), t_event = 7 / 20, t_now = 7 / 20, save_result = Written, send_ok = True\<rparr>,
       \<lparr>msg = None, t_event = 0, t_now = 21 / 25, save_result = Written, send_ok = True\<rparr>,
       \<lparr>msg = None, t_event = 0, t_now = 17 / 20, save_result = Written, send_ok = True\<rparr>,
       \<lparr>msg = None, t_event = 0, t_now = 9 / 10, save_result = Written, send_ok = True\<rparr>]))) = 11"
proof -
  let ?e = "\<lparr>msg = Some ([0xC0, 11], 0), t_event = 1 / 10, t_now = 1 / 10, save_result = Written, send_ok = True\<rparr>"
  let ?es = "[\<lparr>msg = Some ([0xC0, 10], 0), t_event = 3 / 10, t_now = 3 / 10, save_result = Written, send_ok = True\<rparr>,
       \<lparr>msg = Some ([0xC0, 11], 0), t_event = 7 / 20, t_now = 7 / 20, save_result = Written, send_ok = True\<rparr>,
       \<lparr>msg = None, t_event = 0, t_now = 21 / 25, save_result = Written, send_ok = True\<rparr>,
       \<lparr>msg = None, t_event = 0, t_now = 17 / 20, save_result = Written, send_ok = True\<rparr>,
       \<lparr>msg = None, t_event = 0, t_now = 9 / 10, save_result = Written, send_ok = True\<rparr>]"
  have m: "SFZ_MAP 11 = Some ''/root/sfz/Clavinet/Clavinet.sfz''" "SFZ_MAP 10 \<noteq> None"
    by (simp_all add: SFZ_MAP_def)
  have l: "load_last_program Missing = 10" by (simp add: file_eval)
  have a: "sorted (clock_readings (?e # ?es))"
    by (simp add: clock_readings_def pc_of_def COMMON_CHANNEL_def)
  have b: "pc_of ?e = Some (1 / 10, 11)"
    by (simp add: pc_of_def COMMON_CHANNEL_def)
  have c: "close_together (map fst (program_changes (?e # ?es)))"
    by (simp add: program_changes_def map_filter_simps pc_of_def COMMON_CHANNEL_def DEBOUNCE_SECONDS_def)
  have d: "snd (last (program_changes (?e # ?es))) = 11"
    by (simp add: program_changes_def map_filter_simps pc_of_def COMMON_CHANNEL_def)
  have r: "fst (run (initial_state Missing 0) (?e # ?es))
     = [Save 11, Send (load_cmd ''/root/sfz/Clavinet/Clavinet.sfz'')]"
    by (simp add: loop_eval l m)
  from rapid_changes_coalesce[OF a b c, of "initial_state Missing 0"] a c d r
  show ?thesis by simp
qed

subsection \<open>Every Program Change re-arms the timer\<close>

text \<open>
  C3. A Program Change on the common channel sets \<open>last_requested_program\<close> to
  its program and \<open>last_request_time\<close> to the clock reading, whatever the state
  was: no comparison with the pending program is made, so a repeated program re-arms
  the timer as well.
\<close>

theorem program_change_rearms:
  assumes "m = Some (status # program # rest, delta)"
    and "status AND 0xF0 = 0xC0"
    and "status AND 0x0F = COMMON_CHANNEL - 1"
  shows "handle_message s m t = Inr (s\<lparr>last_requested_program := program, last_request_time := t\<rparr>)"
  using assms by (simp add: handle_message_def item_def)

theorem program_change_rearms_witness:
  "(0xC0::int) AND 0xF0 = 0xC0 \<and> (0xC0::int) AND 0x0F = COMMON_CHANNEL - 1
   \<and> handle_message
       \<lparr>current_program = 10, last_requested_program = 11, last_request_time = 1,
        last_prog_file = Missing, sfizz_stdin = []\<rparr>
       (Some ([0xC0, 11], 0)) 2
     = Inr \<lparr>current_program = 10, last_requested_program = 11, last_request_time = 2,
        last_prog_file = Missing, sfizz_stdin = []\<rparr>"
proof -
  have a: "(0xC0::int) AND 0xF0 = 0xC0" by simp
  have b: "(0xC0::int) AND 0x0F = COMMON_CHANNEL - 1" by (simp add: COMMON_CHANNEL_def)
  show ?thesis
    using a b program_change_rearms[OF refl a b, where program = 11 and rest = "[]"
      and delta = 0 and t = 2 and s = "\<lparr>current_program = 10, last_requested_program = 11,
        last_request_time = 1, last_prog_file = Missing, sfizz_stdin = []\<rparr>"]
    by simp
qed

subsection \<open>Programs outside the map\<close>

lemma tick_calls:
  assumes "tick s e = Inr (s', cs)"
  shows "cs = [] \<or> (last_requested_program s' \<in> dom SFZ_MAP \<and> cs = commit_calls (last_requested_program s'))"
proof -
  from assms obtain s1 where d: "debounce_check s1 e = Inr (s', cs)"
    by (auto simp: tick_def split: sum.splits)
  show ?thesis
    by (rule debounce_check_cases[of s1 e]) (use d in \<open>auto simp: commit_calls_def\<close>)
qed

lemma run_calls:
  "\<exists>ps. set ps \<subseteq> dom SFZ_MAP \<and> fst (run s es) = concat (map commit_calls ps)"
proof (induction es arbitrary: s)
  case Nil
  have "set [] \<subseteq> dom SFZ_MAP \<and> fst (run s []) = concat (map commit_calls [])" by simp
  then show ?case by blast
next
  case (Cons e es)
  show ?case
  proof (cases "tick s e")
    case (Inl err)
    then have "set [] \<subseteq> dom SFZ_MAP \<and> fst (run s (e # es)) = concat (map commit_calls [])"
      by simp
    then show ?thesis by blast
  next
    case (Inr r)
    obtain s1 cs where r: "r = (s1, cs)" by (cases r)
    from Cons.IH[of s1] obtain ps where ps: "set ps \<subseteq> dom SFZ_MAP"
      "fst (run s1 es) = concat (map commit_calls ps)" by blast
    have f: "fst (run s (e # es)) = cs @ fst (run s1 es)"
      using Inr r by (simp split: prod.splits)
    from tick_calls[of s e s1 cs] Inr r
    consider "cs = []" | "last_requested_program s1 \<in> dom SFZ_MAP" "cs = commit_calls (last_requested_program s1)"
      by auto
    then show ?thesis
    proof cases
      case 1
      with f ps show ?thesis by auto
    next
      case 2
      have "set (last_requested_program s1 # ps) \<subseteq> dom SFZ_MAP
          \<and> fst (run s (e # es)) = concat (map commit_calls (last_requested_program s1 # ps))"
        using 2 f ps by simp
      then show ?thesis by blast
    qed
  qed
qed

text \<open>
  C4. Whatever the state and the iterations of a run, its calls are commits of keys of
  \<open>SFZ_MAP\<close> only: a program that is not a key is never saved and no load
  command is ever written for it, however long it stays the pending program.
\<close>

theorem unmapped_program_never_sent:
  assumes "p \<notin> dom SFZ_MAP"
  shows "Save p \<notin> set (fst (run s es))
    \<and> (\<exists>ps. p \<notin> set ps \<and> set ps \<subseteq> dom SFZ_MAP \<and> fst (run s es) = concat (map commit_calls ps))"
proof -
  from run_calls[of s es] obtain ps where ps: "set ps \<subseteq> dom SFZ_MAP"
    "fst (run s es) = concat (map commit_calls ps)" by blast
  have np: "p \<notin> set ps" using assms ps(1) by auto
  have "Save p \<notin> set (concat (map commit_calls ps))"
    using np by (auto simp: commit_calls_def split: option.splits)
  with ps np show ?thesis by auto
qed

theorem unmapped_program_never_sent_witness:
  "(20::int) \<notin> dom SFZ_MAP
   \<and> fst (run (initial_state Missing 0)
     [\<lparr>msg = Some ([0xC0, 20], 0), t_event = 1, t_now = 1, save_result = Written, send_ok = True\<rparr>,
      \<lparr>msg = None, t_event = 2, t_now = 2, save_result = Written, send_ok = True\<rparr>,
      \<lparr>msg = None, t_event = 900, t_now = 900, save_result = Written, send_ok = True\<rparr>]) = []
   \<and> Save 20 \<notin> set (fst (run (initial_state Missing 0)
     [\<lparr>msg = Some ([0xC0, 20], 0), t_event = 1, t_now = 1, save_result = Written, send_ok = True\<rparr>,
      \<lparr>msg = None, t_event = 2, t_now = 2, save_result = Written, send_ok = True\<rparr>,
      \<lparr>msg = None, t_event = 900, t_now = 900, save_result = Written, send_ok = True\<rparr>]))"
proof -
  have a: "(20::int) \<notin> dom SFZ_MAP" by (simp add: dom_SFZ_MAP)
  have m: "SFZ_MAP 20 = None" by (simp add: SFZ_MAP_def)
  have l: "load_last_program Missing = 10" by (simp add: file_eval)
  have r: "fst (run (initial_state Missing 0)
     [\<lparr>msg = Some ([0xC0, 20], 0), t_event = 1, t_now = 1, save_result = Written, send_ok = True\<rparr>,
      \<lparr>msg = None, t_event = 2, t_now = 2, save_result = Written, send_ok = True\<rparr>,
      \<lparr>msg = None, t_event = 900, t_now = 900, save_result = Written, send_ok = True\<rparr>]) = []"
    by (simp add: loop_eval l m)
  show ?thesis
    using a r unmapped_program_never_sent[OF a, of "initial_state Missing 0"
     "[\<lparr>msg = Some ([0xC0, 20], 0), t_event = 1, t_now = 1, save_result = Written, send_ok = True\<rparr>,
      \<lparr>msg = None, t_event = 2, t_now = 2, save_result = Written, send_ok = True\<rparr>,
      \<lparr>msg = None, t_event = 900, t_now = 900, save_result = Written, send_ok = True\<rparr>]"]
    by simp
qed

subsection \<open>Retry after a failed send\<close>

lemma run_append:
  "run s (xs @ ys) =
     (case run s xs of
        (cs, Inl err) \<Rightarrow> (cs, Inl err)
      | (cs, Inr s1) \<Rightarrow> (case run s1 ys of (cs', r) \<Rightarrow> (cs @ cs', r)))"
proof (induction xs arbitrary: s)
  case Nil
  show ?case by (simp split: prod.splits)
next
  case (Cons e xs)
  show ?case
  proof (cases "tick s e")
    case (Inl err)
    then show ?thesis by simp
  next
    case (Inr r)
    obtain s1 cs where r: "r = (s1, cs)" by (cases r)
    show ?thesis
      using Inr r Cons.IH[of s1] by (simp split: prod.splits sum.splits)
  qed
qed

lemma concat_replicate_snoc:
  "concat (replicate n xs) @ xs = concat (replicate (Suc n) xs)"
  by (induction n) simp_all

lemma run_failing:
  assumes "SFZ_MAP p = Some sfz_path"
    and "last_requested_program s = p" and "current_program s \<noteq> p"
    and "\<forall>e\<in>set es. quiet e \<and> \<not> send_ok e \<and> DEBOUNCE_SECONDS \<le> t_now e - last_request_time s"
  shows "\<exists>s'. run s es = (concat (replicate (length es) [Save p, Send (load_cmd sfz_path)]), Inr s')
    \<and> current_program s' = current_program s \<and> last_requested_program s' = p
    \<and> last_request_time s' = last_request_time s \<and> sfizz_stdin s' = sfizz_stdin s"
  using assms
proof (induction es arbitrary: s)
  case Nil
  then show ?case by simp
next
  case (Cons e es)
  let ?s1 = "s\<lparr>last_prog_file := save_last_program (save_result e) p (last_prog_file s)\<rparr>"
  have e: "quiet e" "\<not> send_ok e" "DEBOUNCE_SECONDS \<le> t_now e - last_request_time s"
    using Cons.prems(4) by simp_all
  have "debounce_check s e = Inr (?s1, [Save p, Send (load_cmd sfz_path)])"
    using debounce_check_due[of s sfz_path e] Cons.prems(1,2,3) e by simp
  then have t: "tick s e = Inr (?s1, [Save p, Send (load_cmd sfz_path)])"
    using handle_message_quiet[OF e(1), of s "t_event e"] by (simp add: tick_def)
  have "\<exists>s'. run ?s1 es = (concat (replicate (length es) [Save p, Send (load_cmd sfz_path)]), Inr s')
    \<and> current_program s' = current_program ?s1 \<and> last_requested_program s' = p
    \<and> last_request_time s' = last_request_time ?s1 \<and> sfizz_stdin s' = sfizz_stdin ?s1"
    using Cons.prems by (intro Cons.IH) simp_all
  then obtain s' where s': "run ?s1 es = (concat (replicate (length es) [Save p, Send (load_cmd sfz_path)]), Inr s')"
    "current_program s' = current_program s" "last_requested_program s' = p"
    "last_request_time s' = last_request_time s" "sfizz_stdin s' = sfizz_stdin s"
    by auto
  show ?case
    using t s' by simp
qed

lemma run_quiet_at_rest:
  assumes "last_requested_program s = current_program s" and "\<forall>e\<in>set es. quiet e"
  shows "run s es = ([], Inr s)"
  using assms
proof (induction es)
  case Nil
  then show ?case by simp
next
  case (Cons e es)
  have "debounce_check s e = Inr (s, [])"
    using Cons.prems(1) by (intro debounce_check_not_due) simp
  then have "tick s e = Inr (s, [])"
    using handle_message_quiet[of e s "t_event e"] Cons.prems(2) by (simp add: tick_def)
  then show ?case using Cons by simp
qed

text \<open>
  C5. Let a commit of program \<open>p\<close> be due at time \<open>t0\<close>, and let the
  following iterations be quiet and not earlier than \<open>t0\<close>. While the send
  fails, every iteration attempts the commit again and \<open>current_program\<close> and
  the commands received by sfizz stay as they were; the first iteration whose send
  succeeds sets \<open>current_program\<close> to \<open>p\<close>, and the iterations after
  it make no call.
\<close>

theorem send_failure_retried:
  assumes "SFZ_MAP p = Some sfz_path"
    and "last_requested_program s = p" and "current_program s \<noteq> p"
    and "DEBOUNCE_SECONDS \<le> t0 - last_request_time s"
    and "\<forall>e\<in>set (fails @ ok # later). quiet e \<and> t0 \<le> t_now e"
    and "\<forall>e\<in>set fails. \<not> send_ok e" and "send_ok ok"
  shows "(\<exists>sf. run s fails = (concat (replicate (length fails) [Save p, Send (load_cmd sfz_path)]), Inr sf)
            \<and> current_program sf = current_program s \<and> sfizz_stdin sf = sfizz_stdin s)
    \<and> (\<exists>s'. run s (fails @ ok # later)
              = (concat (replicate (Suc (length fails)) [Save p, Send (load_cmd sfz_path)]), Inr s')
            \<and> current_program s' = p \<and> sfizz_stdin s' = sfizz_stdin s @ [load_cmd sfz_path])"
proof -
  have due: "DEBOUNCE_SECONDS \<le> t_now e - last_request_time s" if "e \<in> set (fails @ ok # later)" for e
  proof -
    from that assms(5) have "t0 \<le> t_now e" by blast
    with assms(4) show ?thesis by simp
  qed
  have "\<forall>e\<in>set fails. quiet e \<and> \<not> send_ok e \<and> DEBOUNCE_SECONDS \<le> t_now e - last_request_time s"
    using assms(5,6) due by simp
  from run_failing[OF assms(1,2,3) this]
  obtain sf where sf: "run s fails = (concat (replicate (length fails) [Save p, Send (load_cmd sfz_path)]), Inr sf)"
    "current_program sf = current_program s" "last_requested_program sf = p"
    "last_request_time sf = last_request_time s" "sfizz_stdin sf = sfizz_stdin s"
    by blast
  let ?s1 = "sf\<lparr>last_prog_file := save_last_program (save_result ok) p (last_prog_file sf),
       sfizz_stdin := sfizz_stdin sf @ [load_cmd sfz_path], current_program := p\<rparr>"
  have q: "quiet ok" using assms(5) by simp
  have "DEBOUNCE_SECONDS \<le> t_now ok - last_request_time sf"
    using due[of ok] sf(4) by simp
  then have "debounce_check sf ok = Inr (?s1, [Save p, Send (load_cmd sfz_path)])"
    using debounce_check_due[of sf sfz_path ok] assms(1,3,7) sf(2,3) by simp
  then have t: "tick sf ok = Inr (?s1, [Save p, Send (load_cmd sfz_path)])"
    using handle_message_quiet[OF q, of sf "t_event ok"] by (simp add: tick_def)
  have "run ?s1 later = ([], Inr ?s1)"
    using assms(5) by (intro run_quiet_at_rest) (simp_all add: sf(3))
  then have "run sf (ok # later) = ([Save p, Send (load_cmd sfz_path)], Inr ?s1)"
    using t by simp
  then have "run s (fails @ ok # later)
      = (concat (replicate (Suc (length fails)) [Save p, Send (load_cmd sfz_path)]), Inr ?s1)"
    using sf(1) by (simp add: run_append concat_replicate_snoc del: replicate_Suc)
  moreover have "current_program ?s1 = p \<and> sfizz_stdin ?s1 = sfizz_stdin s @ [load_cmd sfz_path]"
    using sf(5) by simp
  ultimately show ?thesis using sf by blast
qed

theorem send_failure_retried_witness:
  "SFZ_MAP 11 = Some ''/root/sfz/Clavinet/Clavinet.sfz''
   \<and> (\<exists>s'. run \<lparr>current_program = 10, last_requested_program = 11, last_request_time = 0,
                  last_prog_file = Missing, sfizz_stdin = []\<rparr>
        ([\<lparr>msg = None, t_event = 0, t_now = 1 / 2, save_result = Written, send_ok = False\<rparr>,
          \<lparr>msg = None, t_event = 0, t_now = 101 / 200, save_result = Written, send_ok = False\<rparr>]
         @ \<lparr>msg = None, t_event = 0, t_now = 51 / 100, save_result = Written, send_ok = True\<rparr>
         # [\<lparr>msg = Some ([0x90, 60, 100], 0), t_event = 0, t_now = 1, save_result = Written, send_ok = True\<rparr>])
      = ([Save 11, Send (load_cmd ''/root/sfz/Clavinet/Clavinet.sfz''),
          Save 11, Send (load_cmd ''/root/sfz/Clavinet/Clavinet.sfz''),
          Save 11, Send (load_cmd ''/root/sfz/Clavinet/Clavinet.sfz'')], Inr s')
      \<and> current_program s' = 11
      \<and> sfizz_stdin s' = [load_cmd ''/root/sfz/Clavinet/Clavinet.sfz''])"
proof -
  let ?s = "\<lparr>current_program = 10, last_requested_program = 11, last_request_time = 0,
                  last_prog_file = Missing, sfizz_stdin = []\<rparr>"
  let ?fails = "[\<lparr>msg = None, t_event = 0, t_now = 1 / 2, save_result = Written, send_ok = False\<rparr>,
          \<lparr>msg = None, t_event = 0, t_now = 101 / 200, save_result = Written, send_ok = False\<rparr>]"
  let ?ok = "\<lparr>msg = None, t_event = 0, t_now = 51 / 100, save_result = Written, send_ok = True\<rparr>"
  let ?later = "[\<lparr>msg = Some ([0x90, 60, 100], 0), t_event = 0, t_now = 1, save_result = Written, send_ok = True\<rparr>]"
  have m: "SFZ_MAP 11 = Some ''/root/sfz/Clavinet/Clavinet.sfz''"
    by (simp add: SFZ_MAP_def)
  have a: "last_requested_program ?s = 11" by simp
  have b: "current_program ?s \<noteq> 11" by simp
  have c: "DEBOUNCE_SECONDS \<le> 1 / 2 - last_request_time ?s"
    by (simp add: DEBOUNCE_SECONDS_def)
  have d: "\<forall>e\<in>set (?fails @ ?ok # ?later). quiet e \<and> 1 / 2 \<le> t_now e"
    by (simp add: quiet_def)
  have e: "\<forall>e\<in>set ?fails. \<not> send_ok e" by simp
  have f: "send_ok ?ok" by simp
  from send_failure_retried[OF m a b c d e f] m show ?thesis
    by simp
qed

subsection \<open>Reading the last program\<close>

text \<open>
  C6. \<open>load_last_program\<close> returns the default program 10 when the file is
  missing, when it cannot be read, when its stripped text does not parse as an integer,
  and when the parsed value is not a key of \<open>SFZ_MAP\<close>; otherwise it returns
  the parsed value. It returns an integer in every case: no error leaves it.
\<close>

theorem load_last_program_default:
  "(f = Missing \<longrightarrow> load_last_program f = 10)
   \<and> (f = Unreadable \<longrightarrow> load_last_program f = 10)
   \<and> (\<forall>s. f = Text s \<and> py_int (strip s) = None \<longrightarrow> load_last_program f = 10)
   \<and> (\<forall>s v. f = Text s \<and> py_int (strip s) = Some v \<and> v \<notin> dom SFZ_MAP \<longrightarrow> load_last_program f = 10)
   \<and> (\<forall>s v. f = Text s \<and> py_int (strip s) = Some v \<and> v \<in> dom SFZ_MAP \<longrightarrow> load_last_program f = v)"
  by (auto simp: load_last_program_def path_exists_def read_int_def domIff)

theorem load_last_program_default_witness:
  "py_int (strip '' 12 '') = Some 12 \<and> 12 \<in> dom SFZ_MAP
   \<and> load_last_program (Text '' 12 '') = 12
   \<and> py_int (strip ''P011'') = None \<and> load_last_program (Text ''P011'') = 10"
proof -
  have a: "py_int (strip '' 12 '') = Some 12"
    by (simp add: py_int_def strip_def is_space_def py_nat_def digit_value_def)
  have b: "(12::int) \<in> dom SFZ_MAP"
    by (simp add: dom_SFZ_MAP)
  have c: "py_int (strip ''P011'') = None"
    by (simp add: py_int_def strip_def is_space_def py_nat_def digit_value_def)
  show ?thesis
    using a b c load_last_program_default[of "Text '' 12 ''"]
      load_last_program_default[of "Text ''P011''"]
    by simp
qed

subsection \<open>What the file holds\<close>





subsection \<open>No second command for the same program\<close>

lemma run_at_rest:
  assumes "last_requested_program s = current_program s"
    and "\<forall>e\<in>set es. \<forall>t q. pc_of e = Some (t, q) \<longrightarrow> q = current_program s"
  shows "fst (run s es) = []"
  using assms
proof (induction es arbitrary: s)
  case Nil
  then show ?case by simp
next
  case (Cons e es)
  show ?case
  proof (cases "handle_message s (msg e) (t_event e)")
    case (Inl err)
    then show ?thesis by (simp add: tick_def)
  next
    case (Inr s1)
    have c: "current_program s1 = current_program s"
      using handle_message_current[OF Inr] .
    have "last_requested_program s1 = current_program s1"
    proof (cases "pc_of e")
      case None
      from handle_message_no_pc[OF None Inr] Cons.prems(1) show ?thesis by simp
    next
      case (Some tq)
      obtain t q where tq: "tq = (t, q)" by (cases tq)
      have "q = current_program s" using Cons.prems(2) Some tq by simp
      moreover have "s1 = s\<lparr>last_requested_program := q, last_request_time := t\<rparr>"
        using handle_message_pc[of e t q s] Some tq Inr by simp
      ultimately show ?thesis by simp
    qed
    then have d: "debounce_check s1 e = Inr (s1, [])"
      by (intro debounce_check_not_due) simp
    have t: "tick s e = Inr (s1, [])"
      using Inr d by (simp add: tick_def)
    have "fst (run s1 es) = []"
      using Cons.prems(2) c \<open>last_requested_program s1 = current_program s1\<close>
      by (intro Cons.IH) auto
    then show ?thesis using t by (simp split: prod.splits)
  qed
qed

text \<open>
  C8. After an iteration that committed a program and whose send succeeded, a run in
  which every accepted Program Change repeats that program makes no call at all: no
  second load command is written for it.
\<close>

theorem commit_idempotent:
  assumes "tick s e = Inr (s1, cs)" and "Send cmd \<in> set cs" and "send_ok e"
    and "\<forall>e'\<in>set es. \<forall>t q. pc_of e' = Some (t, q) \<longrightarrow> q = current_program s1"
  shows "cs = commit_calls (current_program s1)
    \<and> sfizz_stdin s1 = sfizz_stdin s @ [cmd]
    \<and> fst (run s1 es) = []"
proof -
  from assms(1) obtain s0 where h: "handle_message s (msg e) (t_event e) = Inr s0"
    and d: "debounce_check s0 e = Inr (s1, cs)"
    by (auto simp: tick_def split: sum.splits)
  have w: "sfizz_stdin s0 = sfizz_stdin s" using handle_message_world[OF h] by simp
  have "cs = commit_calls (current_program s1) \<and> sfizz_stdin s1 = sfizz_stdin s0 @ [cmd]
      \<and> last_requested_program s1 = current_program s1"
    using d assms(2,3)
    by (auto simp: debounce_check_def Let_def commit_calls_def split: if_splits option.splits)
  then show ?thesis
    using w run_at_rest[of s1 es] assms(4) by simp
qed

theorem commit_idempotent_witness:
  "tick \<lparr>current_program = 10, last_requested_program = 11, last_request_time = 0,
         last_prog_file = Missing, sfizz_stdin = []\<rparr>
     \<lparr>msg = None, t_event = 0, t_now = 1, save_result = Written, send_ok = True\<rparr>
   = Inr (\<lparr>current_program = 11, last_requested_program = 11, last_request_time = 0,
           last_prog_file = Text ''11'',
           sfizz_stdin = [load_cmd ''/root/sfz/Clavinet/Clavinet.sfz'']\<rparr>,
          [Save 11, Send (load_cmd ''/root/sfz/Clavinet/Clavinet.sfz'')])
   \<and> fst (run \<lparr>current_program = 11, last_requested_program = 11, last_request_time = 0,
           last_prog_file = Text ''11'',
           sfizz_stdin = [load_cmd ''/root/sfz/Clavinet/Clavinet.sfz'']\<rparr>
      [\<lparr>msg = Some ([0xC0, 11], 0), t_event = 2, t_now = 2, save_result = Written, send_ok = True\<rparr>,
       \<lparr>msg = None, t_event = 3, t_now = 3, save_result = Written, send_ok = True\<rparr>,
       \<lparr>msg = Some ([0xC0, 11], 0), t_event = 4, t_now = 5, save_result = Written, send_ok = True\<rparr>])
     = []"
proof -
  let ?s = "\<lparr>current_program = 10, last_requested_program = 11, last_request_time = 0,
         last_prog_file = Missing, sfizz_stdin = []\<rparr>"
  let ?e = "\<lparr>msg = None, t_event = 0, t_now = 1, save_result = Written, send_ok = True\<rparr>"
  let ?s1 = "\<lparr>current_program = 11, last_requested_program = 11, last_request_time = 0,
           last_prog_file = Text ''11'',
           sfizz_stdin = [load_cmd ''/root/sfz/Clavinet/Clavinet.sfz'']\<rparr>"
  let ?cs = "[Save 11, Send (load_cmd ''/root/sfz/Clavinet/Clavinet.sfz'')]"
  let ?es = "[\<lparr>msg = Some ([0xC0, 11], 0), t_event = 2, t_now = 2, save_result = Written, send_ok = True\<rparr>,
       \<lparr>msg = None, t_event = 3, t_now = 3, save_result = Written, send_ok = True\<rparr>,
       \<lparr>msg = Some ([0xC0, 11], 0), t_event = 4, t_now = 5, save_result = Written, send_ok = True\<rparr>]"
  have m: "SFZ_MAP 11 = Some ''/root/sfz/Clavinet/Clavinet.sfz''"
    by (simp add: SFZ_MAP_def)
  have a: "tick ?s ?e = Inr (?s1, ?cs)"
    by (simp add: loop_eval m)
  have b: "Send (load_cmd ''/root/sfz/Clavinet/Clavinet.sfz'') \<in> set ?cs" by simp
  have c: "send_ok ?e" by simp
  have d: "\<forall>e'\<in>set ?es. \<forall>t q. pc_of e' = Some (t, q) \<longrightarrow> q = current_program ?s1"
    by (simp add: pc_of_def COMMON_CHANNEL_def)
  from commit_idempotent[OF a b c d] a show ?thesis by simp
qed

subsection \<open>Short messages\<close>







subsection \<open>The current program is a key of the map\<close>

lemma load_last_program_in_map: "load_last_program f \<in> dom SFZ_MAP"
proof -
  have "SFZ_MAP 10 \<noteq> None" by (simp add: SFZ_MAP_def)
  then show ?thesis
    by (auto simp: load_last_program_def Let_def domIff split: sum.splits)
qed

lemma tick_current_in_map:
  assumes "tick s e = Inr (s', cs)" and "current_program s \<in> dom SFZ_MAP"
  shows "current_program s' \<in> dom SFZ_MAP"
proof -
  from assms(1) obtain s1 where h: "handle_message s (msg e) (t_event e) = Inr s1"
    and d: "debounce_check s1 e = Inr (s', cs)"
    by (auto simp: tick_def split: sum.splits)
  have c: "current_program s1 \<in> dom SFZ_MAP"
    using handle_message_current[OF h] assms(2) by simp
  from d c show ?thesis
    by (auto simp: debounce_check_def Let_def domIff split: if_splits option.splits)
qed

lemma run_current_in_map:
  "current_program s \<in> dom SFZ_MAP \<Longrightarrow> snd (run s es) = Inr s' \<Longrightarrow> current_program s' \<in> dom SFZ_MAP"
proof (induction es arbitrary: s)
  case Nil
  then show ?case by simp
next
  case (Cons e es)
  show ?case
  proof (cases "tick s e")
    case (Inl err)
    with Cons.prems show ?thesis by simp
  next
    case (Inr r)
    obtain s1 cs where r: "r = (s1, cs)" by (cases r)
    have "current_program s1 \<in> dom SFZ_MAP"
      using tick_current_in_map Inr r Cons.prems(1) by blast
    moreover have "snd (run s1 es) = Inr s'"
      using Cons.prems(2) Inr r by (simp split: prod.splits)
    ultimately show ?thesis by (rule Cons.IH)
  qed
qed

text \<open>
  C10. \<open>current_program\<close> is always a key of \<open>SFZ_MAP\<close>:
  \<open>load_last_program\<close> returns a key, the loop starts with that value, and
  after any number of iterations the value is still a key.
\<close>

theorem current_program_in_map:
  "load_last_program f \<in> dom SFZ_MAP
   \<and> current_program (initial_state f t0) = load_last_program f
   \<and> (\<forall>es s'. snd (run (initial_state f t0) es) = Inr s' \<longrightarrow> current_program s' \<in> dom SFZ_MAP)"
proof -
  have "current_program (initial_state f t0) = load_last_program f"
    by (simp add: initial_state_def Let_def)
  then show ?thesis
    using load_last_program_in_map[of f] run_current_in_map[of "initial_state f t0"]
    by auto
qed

theorem current_program_in_map_witness:
  "snd (run (initial_state (Text ''99'') 0)
     [\<lparr>msg = Some ([0xC0, 11], 0), t_event = 1, t_now = 1, save_result = Written, send_ok = True\<rparr>,
      \<lparr>msg = None, t_event = 2, t_now = 2, save_result = Written, send_ok = True\<rparr>])
   = Inr \<lparr>current_program = 11, last_requested_program = 11, last_request_time = 1,
          last_prog_file = Text ''11'',
          sfizz_stdin = [load_cmd ''/root/sfz/Clavinet/Clavinet.sfz'']\<rparr>
   \<and> (11::int) \<in> dom SFZ_MAP"
proof -
  have l: "load_last_program (Text ''99'') = 10"
    by (simp add: file_eval SFZ_MAP_def)
  have m: "SFZ_MAP 11 = Some ''/root/sfz/Clavinet/Clavinet.sfz''"
    by (simp add: SFZ_MAP_def)
  have r: "snd (run (initial_state (Text ''99'') 0)
     [\<lparr>msg = Some ([0xC0, 11], 0), t_event = 1, t_now = 1, save_result = Written, send_ok = True\<rparr>,
      \<lparr>msg = None, t_event = 2, t_now = 2, save_result = Written, send_ok = True\<rparr>])
   = Inr \<lparr>current_program = 11, last_requested_program = 11, last_request_time = 1,
          last_prog_file = Text ''11'',
          sfizz_stdin = [load_cmd ''/root/sfz/Clavinet/Clavinet.sfz'']\<rparr>"
    by (simp add: loop_eval l m)
  from current_program_in_map[of "Text ''99''" 0]
  have "\<forall>es s'. snd (run (initial_state (Text ''99'') 0) es) = Inr s'
          \<longrightarrow> current_program s' \<in> dom SFZ_MAP"
    by simp
  from this[rule_format, OF r] show ?thesis
    using r by simp
qed

end
